theory Spec2Isabelle
  imports Main
begin

section \<open>Python primitives used by qualifier.py\<close>

text \<open>
  Exceptions are values.  \<open>AssertionError\<close> is what a failing \<^verbatim>\<open>assert\<close> raises,
  \<open>ZeroDivisionError\<close> what \<^verbatim>\<open>%\<close> and \<^verbatim>\<open>//\<close> raise on a zero divisor, \<open>IndexError\<close>
  what list indexing raises out of range, \<open>ValueError\<close> carries its message, and
  \<open>OSError\<close> stands for the failures of opening or writing a file.
\<close>

datatype error =
    AssertionError
  | ZeroDivisionError
  | IndexError
  | ValueError string
  | OSError

definition bindE :: "error + 'a \<Rightarrow> ('a \<Rightarrow> error + 'b) \<Rightarrow> error + 'b" where
  "bindE m f = (case m of Inl e \<Rightarrow> Inl e | Inr a \<Rightarrow> f a)"

definition py_assert :: "bool \<Rightarrow> error + unit" where
  "py_assert b = (if b then Inr () else Inl AssertionError)"

text \<open>
  Python's \<^verbatim>\<open>%\<close> and \<^verbatim>\<open>//\<close> on integers round towards minus infinity, as \<open>mod\<close> and
  \<open>div\<close> on \<open>int\<close> do; on a zero divisor Python raises, where HOL returns a value.
\<close>

definition py_mod :: "int \<Rightarrow> int \<Rightarrow> error + int" where
  "py_mod a b = (if b = 0 then Inl ZeroDivisionError else Inr (a mod b))"

definition py_floordiv :: "int \<Rightarrow> int \<Rightarrow> error + int" where
  "py_floordiv a b = (if b = 0 then Inl ZeroDivisionError else Inr (a div b))"

text \<open>\<^verbatim>\<open>range(n)\<close> for a length \<open>n\<close>.\<close>

definition range_len :: "nat \<Rightarrow> int list" where
  "range_len n = map int [0..<n]"

section \<open>valid_input\<close>

text \<open>
  The body of the \<^verbatim>\<open>try\<close> block, statement by statement: the two divisibility
  assertions, the two quotients, the count assertion, the set assertion.
\<close>

definition valid_input_body :: "int \<times> int \<Rightarrow> int \<times> int \<Rightarrow> int list \<Rightarrow> error + bool" where
  "valid_input_body image_size tile_size ords =
     bindE (py_mod (fst image_size) (fst tile_size)) (\<lambda>m0.
     bindE (py_assert (m0 = 0)) (\<lambda>_.
     bindE (py_mod (snd image_size) (snd tile_size)) (\<lambda>m1.
     bindE (py_assert (m1 = 0)) (\<lambda>_.
     bindE (py_floordiv (fst image_size) (fst tile_size)) (\<lambda>size_a.
     bindE (py_floordiv (snd image_size) (snd tile_size)) (\<lambda>size_b.
     bindE (py_assert (size_a * size_b = int (length ords))) (\<lambda>_.
     bindE (py_assert (set ords = set (range_len (length ords)))) (\<lambda>_.
     Inr True))))))))"

text \<open>
  The \<^verbatim>\<open>except AssertionError\<close> clause turns an assertion failure into \<open>False\<close>;
  every other exception leaves the function.
\<close>

definition valid_input :: "int \<times> int \<Rightarrow> int \<times> int \<Rightarrow> int list \<Rightarrow> error + bool" where
  "valid_input image_size tile_size ords =
     (case valid_input_body image_size tile_size ords of
        Inl e \<Rightarrow> (if e = AssertionError then Inr False else Inl e)
      | Inr b \<Rightarrow> Inr b)"

text \<open>
  The four conditions of the docstring, with the remainders and quotients of HOL;
  they are those of Python where no tile dimension is zero.
\<close>

definition valid_args :: "int \<times> int \<Rightarrow> int \<times> int \<Rightarrow> int list \<Rightarrow> bool" where
  "valid_args image_size tile_size ords \<longleftrightarrow>
     fst image_size mod fst tile_size = 0 \<and> snd image_size mod snd tile_size = 0 \<and>
     int (length ords) = (fst image_size div fst tile_size) * (snd image_size div snd tile_size) \<and>
     set ords = {0..<int (length ords)} \<and> distinct ords"

section \<open>More Python primitives\<close>

text \<open>
  \<^verbatim>\<open>range(start, stop, step)\<close>: a zero step raises \<open>ValueError\<close>; a positive step
  counts up while below \<open>stop\<close>, a negative one counts down while above it.
\<close>

definition py_range :: "int \<Rightarrow> int \<Rightarrow> int \<Rightarrow> error + int list" where
  "py_range start stop step =
     (if step = 0 then Inl (ValueError ''range() arg 3 must not be zero'')
      else if 0 < step then
        Inr (map (\<lambda>k. start + int k * step) [0..<nat ((stop - start + step - 1) div step)])
      else
        Inr (map (\<lambda>k. start + int k * step) [0..<nat ((start - stop - step - 1) div (- step))]))"

text \<open>\<^verbatim>\<open>xs[i]\<close>: a negative index counts from the end, an index out of range raises.\<close>

definition py_getitem :: "'a list \<Rightarrow> int \<Rightarrow> error + 'a" where
  "py_getitem xs i =
     (if 0 \<le> i \<and> i < int (length xs) then Inr (xs ! nat i)
      else if i < 0 \<and> - int (length xs) \<le> i then Inr (xs ! nat (int (length xs) + i))
      else Inl IndexError)"

text \<open>A comprehension whose element expression can raise: the first exception wins.\<close>

fun mapE :: "('a \<Rightarrow> error + 'b) \<Rightarrow> 'a list \<Rightarrow> error + 'b list" where
  "mapE f [] = Inr []"
| "mapE f (x # xs) = bindE (f x) (\<lambda>y. bindE (mapE f xs) (\<lambda>ys. Inr (y # ys)))"

section \<open>The imaging library\<close>

text \<open>
  What the program uses of an image: its size \<open>(width, height)\<close>, its mode, its
  pixels by coordinates (\<open>x\<close> to the right, \<open>y\<close> downwards) and, in a palette
  mode, its palette.  Only the pixels inside the size belong to the image.  The
  pixel type is left open; its \<open>0\<close> is the value the library fills a fresh image
  with.  In a palette mode a pixel is an index into the palette, which lists the
  red, green and blue value of each entry.
\<close>

record 'p image =
  im_size :: "nat \<times> nat"
  im_mode :: string
  im_pixel :: "int \<Rightarrow> int \<Rightarrow> 'p"
  im_palette :: "nat list option"

definition has_palette :: "string \<Rightarrow> bool" where
  "has_palette image_mode \<longleftrightarrow> image_mode = ''P'' \<or> image_mode = ''PA''"

text \<open>The palette of a fresh image in a palette mode: the grey ramp.\<close>

definition fresh_palette :: "nat list" where
  "fresh_palette = concat (map (\<lambda>i. [i, i, i]) [0..<256])"

definition width :: "'p image \<Rightarrow> int" where
  "width img = int (fst (im_size img))"

definition height :: "'p image \<Rightarrow> int" where
  "height img = int (snd (im_size img))"

definition inside :: "'p image \<Rightarrow> int \<Rightarrow> int \<Rightarrow> bool" where
  "inside img x y \<longleftrightarrow> 0 \<le> x \<and> x < width img \<and> 0 \<le> y \<and> y < height img"

text \<open>
  \<^verbatim>\<open>Image.new(mode, size)\<close>: a negative dimension raises \<open>ValueError\<close>; the image is
  filled with \<open>0\<close> and, in a palette mode, gets a fresh palette.
\<close>

definition image_new :: "string \<Rightarrow> int \<times> int \<Rightarrow> error + ('p::zero) image" where
  "image_new image_mode sz =
     (if fst sz < 0 \<or> snd sz < 0 then Inl (ValueError ''Width and height must be >= 0'')
      else Inr \<lparr>im_size = (nat (fst sz), nat (snd sz)), im_mode = image_mode,
                im_pixel = (\<lambda>x y. 0),
                im_palette = (if has_palette image_mode then Some fresh_palette else None)\<rparr>)"

text \<open>
  \<^verbatim>\<open>img.crop((left, upper, right, lower))\<close>: a box whose right edge is left of its
  left edge, or whose lower edge is above its upper edge, raises \<open>ValueError\<close>; the
  result has the size of the box and the mode of the image, the part of the box
  outside the image is filled with \<open>0\<close>, and in a palette mode the palette of the
  image is copied (a fresh one is made if the image has none).
\<close>

definition copied_palette :: "'p image \<Rightarrow> nat list option" where
  "copied_palette img =
     (if has_palette (im_mode img)
      then (case im_palette img of None \<Rightarrow> Some fresh_palette | Some pal \<Rightarrow> Some pal)
      else None)"

definition crop :: "('p::zero) image \<Rightarrow> int \<times> int \<times> int \<times> int \<Rightarrow> error + 'p image" where
  "crop img box =
     (case box of (left, upper, right, lower) \<Rightarrow>
        if right < left then Inl (ValueError ''Coordinate right is less than left'')
        else if lower < upper then Inl (ValueError ''Coordinate lower is less than upper'')
        else Inr \<lparr>im_size = (nat (right - left), nat (lower - upper)), im_mode = im_mode img,
                  im_pixel = (\<lambda>x y. if inside img (left + x) (upper + y)
                                      then im_pixel img (left + x) (upper + y) else 0),
                  im_palette = copied_palette img\<rparr>)"

text \<open>
  \<^verbatim>\<open>img.paste(tile, (x, y))\<close>: the pixels of \<open>tile\<close> replace those of \<open>img\<close> from
  \<open>(x, y)\<close> on, clipped to \<open>img\<close>; the palette of \<open>img\<close> stays as it is.  The image is
  changed in place; the model returns the changed image.
\<close>

definition paste :: "'p image \<Rightarrow> 'p image \<Rightarrow> int \<times> int \<Rightarrow> 'p image" where
  "paste img tile pos =
     img\<lparr>im_pixel := (\<lambda>x y. if inside img x y \<and> inside tile (x - fst pos) (y - snd pos)
                              then im_pixel tile (x - fst pos) (y - snd pos)
                              else im_pixel img x y)\<rparr>"

text \<open>
  The files the program can see: the image that \<^verbatim>\<open>Image.open\<close> reads under each
  path, and the encoders of the library.  \<^verbatim>\<open>save\<close> picks the encoder by the
  extension of the path.  The encoders are not part of the repository, so they are
  a parameter: \<open>codec fs path img\<close> is the image that a later \<^verbatim>\<open>Image.open\<close> of the
  written file reads (a lossless format returns \<open>img\<close> itself, a lossy one changes
  pixels, some formats change the mode), or the reason why nothing is written.
\<close>

datatype save_failure =
    UnknownExtension string
  | CannotWrite

record 'p filesystem =
  files :: "string \<rightharpoonup> 'p image"
  codec :: "string \<Rightarrow> 'p image \<Rightarrow> save_failure + 'p image"

text \<open>\<^verbatim>\<open>Image.open\<close> raises \<open>OSError\<close> on a path that holds no image.\<close>

definition image_open :: "'p filesystem \<Rightarrow> string \<Rightarrow> error + 'p image" where
  "image_open fs path = (case files fs path of None \<Rightarrow> Inl OSError | Some img \<Rightarrow> Inr img)"

text \<open>
  \<^verbatim>\<open>img.save(path)\<close>: an extension without an encoder raises \<open>ValueError\<close> with the
  library's message, an encoder that cannot write the mode of the image or a path that
  cannot be written raises \<open>OSError\<close>; otherwise the file holds what the encoder
  makes of the image.
\<close>

definition image_save ::
  "'p filesystem \<Rightarrow> 'p image \<Rightarrow> string \<Rightarrow> (error + unit) \<times> 'p filesystem" where
  "image_save fs img path =
     (case codec fs path img of
        Inl (UnknownExtension ext) \<Rightarrow> (Inl (ValueError (''unknown file extension: '' @ ext)), fs)
      | Inl CannotWrite \<Rightarrow> (Inl OSError, fs)
      | Inr stored \<Rightarrow> (Inr (), fs\<lparr>files := (files fs)(path \<mapsto> stored)\<rparr>))"

section \<open>split_into_tiles, combine_tiles, rearrange_tiles\<close>

text \<open>
  The comprehension of \<open>split_into_tiles\<close>: \<open>y\<close> runs over \<^verbatim>\<open>range(0, height, dy)\<close> in
  the outer loop, and for each \<open>y\<close> the inner loop evaluates \<^verbatim>\<open>range(0, width, dx)\<close>
  and crops one tile per \<open>x\<close>.
\<close>

definition split_into_tiles :: "('p::zero) image \<Rightarrow> int \<Rightarrow> int \<Rightarrow> error + 'p image list" where
  "split_into_tiles img dx dy =
     bindE (py_range 0 (height img) dy) (\<lambda>ys.
     bindE (mapE (\<lambda>y.
              bindE (py_range 0 (width img) dx) (\<lambda>xs.
              mapE (\<lambda>x. crop img (x, y, x + dx, y + dy)) xs)) ys) (\<lambda>rows.
     Inr (concat rows)))"

text \<open>
  The loop of \<open>combine_tiles\<close> over \<^verbatim>\<open>enumerate(tiles)\<close>, from index \<open>i\<close> on: the column
  offset, the row offset, the paste.
\<close>

fun combine_loop ::
  "'p image \<Rightarrow> int \<Rightarrow> 'p image list \<Rightarrow> int \<Rightarrow> int \<Rightarrow> int \<Rightarrow> error + 'p image" where
  "combine_loop img i [] width_count dx dy = Inr img"
| "combine_loop img i (tile # tiles) width_count dx dy =
     bindE (py_mod i width_count) (\<lambda>c.
     bindE (py_floordiv i width_count) (\<lambda>r.
     combine_loop (paste img tile (c * dx, r * dy)) (i + 1) tiles width_count dx dy))"

definition combine_tiles ::
  "('p::zero) image list \<Rightarrow> int \<Rightarrow> int \<Rightarrow> int \<Rightarrow> int \<Rightarrow> string \<Rightarrow> error + 'p image" where
  "combine_tiles tiles width_count height_count dx dy image_mode =
     bindE (image_new image_mode (dx * width_count, dy * height_count)) (\<lambda>img.
     combine_loop img 0 tiles width_count dx dy)"

text \<open>Line 51 of \<open>rearrange_tiles\<close>: \<^verbatim>\<open>[tiles[index] for index in ordering]\<close>.\<close>

definition sorted_tiles :: "'a list \<Rightarrow> int list \<Rightarrow> error + 'a list" where
  "sorted_tiles tiles ords = mapE (\<lambda>index. py_getitem tiles index) ords"

text \<open>Lines 49 to 56 of \<open>rearrange_tiles\<close>: from the validated image to \<open>new_img\<close>.\<close>

definition new_img ::
  "('p::zero) image \<Rightarrow> int \<times> int \<Rightarrow> int list \<Rightarrow> error + 'p image" where
  "new_img img tile_size ords =
     (case tile_size of (dx, dy) \<Rightarrow>
        bindE (split_into_tiles img dx dy) (\<lambda>tiles.
        bindE (sorted_tiles tiles ords) (\<lambda>sorted.
        bindE (py_floordiv (width img) dx) (\<lambda>width_count.
        bindE (py_floordiv (height img) dy) (\<lambda>height_count.
        combine_tiles sorted width_count height_count dx dy (im_mode img))))))"

text \<open>
  \<open>rearrange_tiles\<close> on a file system: it returns what the call raises, or \<open>()\<close>,
  and the file system it leaves.
\<close>

definition rearrange_tiles ::
  "('p::zero) filesystem \<Rightarrow> string \<Rightarrow> int \<times> int \<Rightarrow> int list \<Rightarrow> string
     \<Rightarrow> (error + unit) \<times> 'p filesystem" where
  "rearrange_tiles fs image_path tile_size ords out_path =
     (case image_open fs image_path of
        Inl e \<Rightarrow> (Inl e, fs)
      | Inr img \<Rightarrow>
          (case valid_input (width img, height img) tile_size ords of
             Inl e \<Rightarrow> (Inl e, fs)
           | Inr ok \<Rightarrow>
               if \<not> ok then
                 (Inl (ValueError ''The tile size or ordering are not valid for the given image''), fs)
               else
                 (case new_img img tile_size ords of
                    Inl e \<Rightarrow> (Inl e, fs)
                  | Inr out \<Rightarrow> image_save fs out out_path)))"

section \<open>Notions used in the statements\<close>

text \<open>The error that \<open>rearrange_tiles\<close> raises on invalid input.\<close>

abbreviation InvalidArrangement :: error where
  "InvalidArrangement \<equiv> ValueError ''The tile size or ordering are not valid for the given image''"

text \<open>The tile that \<open>crop\<close> returns for the box of size \<open>(dx, dy)\<close> at \<open>(x, y)\<close>.\<close>

definition cropped :: "('p::zero) image \<Rightarrow> int \<Rightarrow> int \<Rightarrow> int \<Rightarrow> int \<Rightarrow> 'p image" where
  "cropped img x y dx dy =
     \<lparr>im_size = (nat dx, nat dy), im_mode = im_mode img,
      im_pixel = (\<lambda>u v. if inside img (x + u) (y + v) then im_pixel img (x + u) (y + v) else 0),
      im_palette = copied_palette img\<rparr>"

text \<open>
  The tiles of the grid in row-major order: tile \<open>i\<close> is the one in column
  \<open>i mod width_count\<close> and row \<open>i div width_count\<close>.
\<close>

definition grid_tiles :: "('p::zero) image \<Rightarrow> int \<Rightarrow> int \<Rightarrow> 'p image list" where
  "grid_tiles img dx dy =
     map (\<lambda>i. cropped img ((int i mod (width img div dx)) * dx) ((int i div (width img div dx)) * dy) dx dy)
       [0..<nat ((width img div dx) * (height img div dy))]"

text \<open>An encoder that stores every image unchanged, as a lossless format does.\<close>

definition lossless :: "string \<Rightarrow> 'p image \<Rightarrow> save_failure + 'p image" where
  "lossless path img = Inr img"



text \<open>
  A 4 by 4 image with sixteen different pixels, a 5 by 4 image, and a 2 by 1 palette
  image whose two pixels are red and green; a file system for each, with lossless
  encoders.
\<close>

definition sample_image :: "int image" where
  "sample_image = \<lparr>im_size = (4, 4), im_mode = ''L'', im_pixel = (\<lambda>x y. x + 4 * y),
                    im_palette = None\<rparr>"

definition sample_fs :: "int filesystem" where
  "sample_fs = \<lparr>files = [''in.png'' \<mapsto> sample_image], codec = lossless\<rparr>"

definition odd_image :: "int image" where
  "odd_image = \<lparr>im_size = (5, 4), im_mode = ''L'', im_pixel = (\<lambda>x y. x + 5 * y),
                 im_palette = None\<rparr>"

definition odd_fs :: "int filesystem" where
  "odd_fs = \<lparr>files = [''in.png'' \<mapsto> odd_image], codec = lossless\<rparr>"

definition pal_image :: "int image" where
  "pal_image = \<lparr>im_size = (2, 1), im_mode = ''P'', im_pixel = (\<lambda>x y. x),
                 im_palette = Some [255, 0, 0, 0, 255, 0]\<rparr>"

definition pal_fs :: "int filesystem" where
  "pal_fs = \<lparr>files = [''in.png'' \<mapsto> pal_image], codec = lossless\<rparr>"

section \<open>Properties of valid_input\<close>

lemma set_range_len: "set (range_len n) = {0..<int n}"
  by (simp add: range_len_def image_int_atLeastLessThan)


text \<open>A list whose value set is \<open>{0, \<dots>, len - 1}\<close> has no duplicates.\<close>

lemma perm_distinct:
  assumes "set ords = {0..<int (length ords)}"
  shows "distinct ords"
proof -
  have "card (set ords) = card {0..<int (length ords)}"
    using assms by simp
  then have "card (set ords) = length ords"
    by simp
  then show ?thesis
    by (rule card_distinct)
qed

text \<open>What the function computes, branch by branch.\<close>

lemma valid_input_body_cases:
  "valid_input_body (iw, ih) (tw, th) ords =
     (if tw = 0 then Inl ZeroDivisionError
      else if iw mod tw \<noteq> 0 then Inl AssertionError
      else if th = 0 then Inl ZeroDivisionError
      else if ih mod th \<noteq> 0 then Inl AssertionError
      else if (iw div tw) * (ih div th) \<noteq> int (length ords) then Inl AssertionError
      else if set ords \<noteq> {0..<int (length ords)} then Inl AssertionError
      else Inr True)"
  by (simp add: valid_input_body_def bindE_def py_mod_def py_floordiv_def py_assert_def
      set_range_len)

lemma valid_input_cases:
  "valid_input (iw, ih) (tw, th) ords =
     (if tw = 0 then Inl ZeroDivisionError
      else if iw mod tw \<noteq> 0 then Inr False
      else if th = 0 then Inl ZeroDivisionError
      else Inr (ih mod th = 0 \<and> (iw div tw) * (ih div th) = int (length ords)
                \<and> set ords = {0..<int (length ords)}))"
  by (simp add: valid_input_def valid_input_body_cases)

lemma valid_input_nonzero:
  assumes "fst tile_size \<noteq> 0" and "snd tile_size \<noteq> 0"
  shows "valid_input image_size tile_size ords = Inr (valid_args image_size tile_size ords)"
proof -
  obtain iw ih tw th where eq: "image_size = (iw, ih)" "tile_size = (tw, th)"
    by (cases image_size, cases tile_size) auto
  have "set ords = {0..<int (length ords)} \<Longrightarrow> distinct ords"
    by (rule perm_distinct)
  then show ?thesis
    using assms unfolding eq valid_args_def by (auto simp add: valid_input_cases)
qed

text \<open>
  \<open>valid_input\<close> returns \<open>True\<close> exactly when the tile width divides the image
  width, the tile height divides the image height, the length of the ordering is the
  product of the two quotients, and the ordering holds every value of
  \<open>{0, \<dots>, len - 1}\<close> exactly once.  A remainder and a quotient exist only for a
  non-zero divisor, which the first two conjuncts say.  Where both tile dimensions
  are non-zero, any violation (length mismatch, duplicate, out-of-range or missing
  value) yields \<open>False\<close>.
\<close>

lemma valid_input_true_iff:
  "(valid_input (iw, ih) (tw, th) ords = Inr True \<longleftrightarrow>
      (tw \<noteq> 0 \<and> iw mod tw = 0) \<and> (th \<noteq> 0 \<and> ih mod th = 0) \<and>
      int (length ords) = (iw div tw) * (ih div th) \<and>
      set ords = {0..<int (length ords)} \<and> distinct ords) \<and>
   (tw \<noteq> 0 \<and> th \<noteq> 0 \<and>
      \<not> (iw mod tw = 0 \<and> ih mod th = 0 \<and>
         int (length ords) = (iw div tw) * (ih div th) \<and>
         set ords = {0..<int (length ords)} \<and> distinct ords)
      \<longrightarrow> valid_input (iw, ih) (tw, th) ords = Inr False)"
proof (cases "tw = 0 \<or> th = 0")
  case True
  then show ?thesis
    by (auto simp add: valid_input_cases)
next
  case False
  then have "valid_input (iw, ih) (tw, th) ords = Inr (valid_args (iw, ih) (tw, th) ords)"
    by (simp add: valid_input_nonzero)
  with False show ?thesis
    by (simp add: valid_args_def)
qed

lemma valid_input_true_iff_examples:
  "valid_input (4, 4) (2, 2) [0, 1, 2, 3] = Inr True \<and>
   valid_input (4, 4) (2, 2) [0, 1, 2] = Inr False \<and>
   valid_input (4, 4) (2, 2) [0, 0, 1, 2] = Inr False \<and>
   valid_input (4, 4) (2, 2) [0, 1, 2, 4] = Inr False"
proof (intro conjI)
  have s: "set [0, 1, 2, 3 :: int] = {0..<4}"
    by auto
  show "valid_input (4, 4) (2, 2) [0, 1, 2, 3] = Inr True"
    using valid_input_true_iff [of 4 4 2 2 "[0, 1, 2, 3]"] s by simp
  show "valid_input (4, 4) (2, 2) [0, 1, 2] = Inr False"
    using valid_input_true_iff [of 4 4 2 2 "[0, 1, 2]"] by simp
  show "valid_input (4, 4) (2, 2) [0, 0, 1, 2] = Inr False"
    using valid_input_true_iff [of 4 4 2 2 "[0, 0, 1, 2]"] by simp
  show "valid_input (4, 4) (2, 2) [0, 1, 2, 4] = Inr False"
    using valid_input_true_iff [of 4 4 2 2 "[0, 1, 2, 4]"] by auto
qed

text \<open>
  C1.  The characterisation stops at a zero tile dimension: there a violation does
  not yield \<open>False\<close>.  For the image size \<open>(4, 4)\<close>, the tile size \<open>(0, 2)\<close> and the
  ordering \<open>[0, 0]\<close>, which has a duplicate and the wrong length, the call raises
  \<open>ZeroDivisionError\<close>.
\<close>

theorem valid_input_zero_tile_duplicate_raises:
  "valid_input (4, 4) (0, 2) [0, 0] = Inl ZeroDivisionError"
  by (simp add: valid_input_cases)

text \<open>
  C3.  A zero tile width makes the first \<^verbatim>\<open>%\<close> raise \<open>ZeroDivisionError\<close>, which the
  \<^verbatim>\<open>except AssertionError\<close> clause does not catch: the function raises instead of
  returning \<open>False\<close>, whatever the image size and the ordering.
\<close>

theorem valid_input_zero_tile_width_raises:
  "valid_input (iw, ih) (0, th) ords = Inl ZeroDivisionError"
  by (simp add: valid_input_cases)

text \<open>
  A zero tile height raises as well once the width check has passed, and is
  answered \<open>False\<close> only when the width check fails first.
\<close>

lemma valid_input_zero_tile_height:
  "tw \<noteq> 0 \<Longrightarrow> valid_input (iw, ih) (tw, 0) ords =
     (if iw mod tw = 0 then Inl ZeroDivisionError else Inr False)"
  by (simp add: valid_input_cases)

text \<open>
  C9 (as the code has it).  For an image size with a zero dimension and a positive
  tile size, every non-empty ordering is rejected, by the \<open>AssertionError\<close> of a
  failed assertion that the \<^verbatim>\<open>except\<close> clause catches; the empty ordering is
  accepted exactly when the tile size divides both image dimensions.
\<close>

theorem valid_input_degenerate_image:
  assumes "iw = 0 \<or> ih = 0" and "0 < tw" and "0 < th"
  shows "(ords \<noteq> [] \<longrightarrow>
            valid_input_body (iw, ih) (tw, th) ords = Inl AssertionError \<and>
            valid_input (iw, ih) (tw, th) ords = Inr False) \<and>
         valid_input (iw, ih) (tw, th) [] = Inr (iw mod tw = 0 \<and> ih mod th = 0)"
  using assms by (auto simp add: valid_input_cases valid_input_body_cases)

theorem valid_input_degenerate_image_witness:
  "((0::int) = 0 \<or> (4::int) = 0) \<and> (0::int) < 2 \<and>
   valid_input_body (0, 4) (2, 2) [0] = Inl AssertionError \<and>
   valid_input (0, 4) (2, 2) [0] = Inr False \<and>
   valid_input (0, 4) (2, 2) [] = Inr True"
  using valid_input_degenerate_image [of 0 4 2 2 "[0]"] by simp

text \<open>
  The claim as the specification words it fails: a zero-sized image with a positive
  tile size and the empty ordering is accepted.
\<close>

theorem valid_input_degenerate_image_counterexample:
  "valid_input (0, 0) (2, 2) [] = Inr True"
  by (simp add: valid_input_cases)

text \<open>
  C10.  A tile size with two negative components is accepted: \<open>4 % -2\<close> is \<open>0\<close> and
  \<open>4 // -2\<close> is \<open>-2\<close>, so both divisibility assertions hold and the count is
  \<open>(-2) * (-2) = 4\<close>.
\<close>

theorem valid_input_negative_tile_size:
  "py_mod 4 (- 2) = Inr 0 \<and> py_floordiv 4 (- 2) = Inr (- 2) \<and>
   valid_input (4, 4) (- 2, - 2) [0, 1, 2, 3] = Inr True"
proof -
  have "set [0, 1, 2, 3 :: int] = {0..<4}"
    by auto
  then show ?thesis
    by (simp add: valid_input_cases py_mod_def py_floordiv_def)
qed

section \<open>Exceptions and comprehensions\<close>

lemma bindE_Inr [simp]: "bindE (Inr a) f = f a"
  by (simp add: bindE_def)

lemma bindE_Inl [simp]: "bindE (Inl e) f = Inl e"
  by (simp add: bindE_def)


lemma bindE_neq: "m \<noteq> Inl e \<Longrightarrow> (\<And>a. f a \<noteq> Inl e) \<Longrightarrow> bindE m f \<noteq> Inl e"
  by (cases m) simp_all

lemma mapE_Inr:
  "(\<And>x. x \<in> set xs \<Longrightarrow> f x = Inr (g x)) \<Longrightarrow> mapE f xs = Inr (map g xs)"
  by (induction xs) simp_all

lemma mapE_neq: "(\<And>x. f x \<noteq> Inl e) \<Longrightarrow> mapE f xs \<noteq> Inl e"
proof (induction xs)
  case Nil
  show ?case by simp
next
  case (Cons x xs)
  have tl: "bindE (mapE f xs) (\<lambda>ys. Inr (y # ys)) \<noteq> Inl e" for y
    by (rule bindE_neq) (use Cons in simp_all)
  have "bindE (f x) (\<lambda>y. bindE (mapE f xs) (\<lambda>ys. Inr (y # ys))) \<noteq> Inl e"
    by (rule bindE_neq) (rule Cons.prems, rule tl)
  then show ?case by simp
qed

lemma py_range_pos:
  assumes "0 < step" and "0 \<le> n"
  shows "py_range 0 (n * step) step = Inr (map (\<lambda>k. int k * step) [0..<nat n])"
proof -
  have "(n * step + step - 1) div step = n"
  proof -
    have "n * step + step - 1 = (step - 1) + n * step" by simp
    also have "\<dots> div step = (step - 1) div step + n"
      using assms by (subst div_mult_self1) auto
    also have "\<dots> = n" using assms by (simp add: div_pos_pos_trivial)
    finally show ?thesis .
  qed
  then have "nat ((n * step + step - 1) div step) = nat n" by simp
  then show ?thesis using assms by (simp add: py_range_def)
qed

lemma concat_grid:
  "concat (map (\<lambda>r. map (f r) [0..<m]) [0..<n]) = map (\<lambda>i. f (i div m) (i mod m)) [0..<n * m]"
proof (induction n)
  case 0
  show ?case by simp
next
  case (Suc n)
  have "[0..<n * m + m] = [0..<n * m] @ [n * m..<n * m + m]"
    by (rule upt_add_eq_append) simp
  also have "[n * m..<n * m + m] = map (\<lambda>j. j + n * m) [0..<m]"
    by (simp only: map_add_upt add.commute [of m])
  finally have split: "[0..<Suc n * m] = [0..<n * m] @ map (\<lambda>j. j + n * m) [0..<m]"
    by (simp only: mult_Suc add.commute [of m])
  have last_row: "map (\<lambda>i. f (i div m) (i mod m)) (map (\<lambda>j. j + n * m) [0..<m]) = map (f n) [0..<m]"
    unfolding map_map by (rule map_cong) auto
  have "concat (map (\<lambda>r. map (f r) [0..<m]) [0..<Suc n]) =
          concat (map (\<lambda>r. map (f r) [0..<m]) [0..<n]) @ map (f n) [0..<m]"
    by simp
  also have "\<dots> = map (\<lambda>i. f (i div m) (i mod m)) [0..<n * m] @ map (f n) [0..<m]"
    by (simp only: Suc.IH)
  also have "\<dots> = map (\<lambda>i. f (i div m) (i mod m)) [0..<Suc n * m]"
    by (simp only: split map_append last_row)
  finally show ?case .
qed



section \<open>Arithmetic of grid cells\<close>

text \<open>
  A coordinate \<open>x\<close> lies in the cell \<open>c\<close> of width \<open>d\<close> exactly when
  \<open>x div d = c\<close>; a row and a column determine the row-major index and back.
\<close>

lemma cell_iff:
  fixes x c d :: int
  assumes "0 < d"
  shows "c * d \<le> x \<and> x < c * d + d \<longleftrightarrow> x div d = c"
proof
  assume h: "c * d \<le> x \<and> x < c * d + d"
  show "x div d = c"
    by (rule int_div_pos_eq [where r = "x - c * d"]) (use h in \<open>simp_all add: mult.commute\<close>)
next
  assume h: "x div d = c"
  have "x = d * (x div d) + x mod d" by simp
  moreover have "0 \<le> x mod d" "x mod d < d" using assms by simp_all
  ultimately have "d * c \<le> x \<and> x < d * c + d"
    unfolding h by linarith
  then show "c * d \<le> x \<and> x < c * d + d"
    by (simp add: mult.commute)
qed

lemma index_iff:
  fixes r c i wc :: int
  assumes "0 < wc" and "0 \<le> c" and "c < wc"
  shows "r * wc + c = i \<longleftrightarrow> r = i div wc \<and> c = i mod wc"
proof
  assume h: "r * wc + c = i"
  have "i div wc = r"
    by (rule int_div_pos_eq [where r = c]) (use h assms in \<open>simp_all add: mult.commute\<close>)
  moreover have "i mod wc = c"
    by (rule int_mod_pos_eq [where q = r]) (use h assms in \<open>simp_all add: mult.commute\<close>)
  ultimately show "r = i div wc \<and> c = i mod wc" by simp
next
  assume "r = i div wc \<and> c = i mod wc"
  then show "r * wc + c = i" by simp
qed

lemma div_less_cells:
  fixes x d n :: int
  assumes "0 < d"
  shows "x div d < n \<longleftrightarrow> x < n * d"
proof -
  have b: "(x div d) * d \<le> x \<and> x < (x div d) * d + d"
    using cell_iff [OF assms, of "x div d" x] by simp
  show ?thesis
  proof
    assume "x div d < n"
    then have "x div d + 1 \<le> n" by simp
    then have "(x div d + 1) * d \<le> n * d"
      by (rule mult_right_mono) (use assms in simp)
    then have "(x div d) * d + d \<le> n * d"
      by (simp only: distrib_right mult_1)
    then show "x < n * d"
      using b by linarith
  next
    assume h: "x < n * d"
    show "x div d < n"
    proof (rule ccontr)
      assume "\<not> x div d < n"
      then have "n \<le> x div d" by simp
      then have "n * d \<le> (x div d) * d"
        by (rule mult_right_mono) (use assms in simp)
      then show False using b h by linarith
    qed
  qed
qed


section \<open>Facts about the imaging library\<close>

lemma width_nonneg [simp]: "0 \<le> width img"
  by (simp add: width_def)

lemma height_nonneg [simp]: "0 \<le> height img"
  by (simp add: height_def)

lemma crop_cropped:
  "0 \<le> dx \<Longrightarrow> 0 \<le> dy \<Longrightarrow> crop img (x, y, x + dx, y + dy) = Inr (cropped img x y dx dy)"
  by (simp add: crop_def cropped_def)

lemma cropped_size [simp]: "im_size (cropped img x y dx dy) = (nat dx, nat dy)"
  by (simp add: cropped_def)

lemma paste_size [simp]: "im_size (paste img t p) = im_size img"
  by (simp add: paste_def)

lemma paste_mode [simp]: "im_mode (paste img t p) = im_mode img"
  by (simp add: paste_def)

lemma paste_palette [simp]: "im_palette (paste img t p) = im_palette img"
  by (simp add: paste_def)

lemma inside_paste [simp]: "inside (paste img t p) x y = inside img x y"
  by (simp add: inside_def width_def height_def)

lemma paste_pixel:
  "im_pixel (paste img t p) x y =
     (if inside img x y \<and> inside t (x - fst p) (y - snd p)
      then im_pixel t (x - fst p) (y - snd p) else im_pixel img x y)"
  by (simp add: paste_def)

lemma inside_tile:
  assumes "im_size t = (nat dx, nat dy)"
  shows "inside t u v \<longleftrightarrow> 0 \<le> u \<and> u < dx \<and> 0 \<le> v \<and> v < dy"
  using assms by (auto simp add: inside_def width_def height_def)

lemma sample_image_simps [simp]:
  "width sample_image = 4" "height sample_image = 4" "im_size sample_image = (4, 4)"
  "im_mode sample_image = ''L''" "im_pixel sample_image x y = x + 4 * y"
  by (simp_all add: sample_image_def width_def height_def)

lemma sample_fs_simps [simp]:
  "files sample_fs ''in.png'' = Some sample_image" "codec sample_fs = lossless"
  by (simp_all add: sample_fs_def)

lemma odd_simps [simp]:
  "width odd_image = 5" "height odd_image = 4"
  "files odd_fs ''in.png'' = Some odd_image" "codec odd_fs = lossless"
  by (simp_all add: odd_image_def odd_fs_def width_def height_def)

lemma pal_simps [simp]:
  "width pal_image = 2" "height pal_image = 1" "im_mode pal_image = ''P''"
  "im_pixel pal_image x y = x" "im_palette pal_image = Some [255, 0, 0, 0, 255, 0]"
  "files pal_fs ''in.png'' = Some pal_image" "codec pal_fs = lossless"
  by (simp_all add: pal_image_def pal_fs_def width_def height_def)


section \<open>split_into_tiles\<close>

lemma split_into_tiles_grid:
  assumes "0 < dx" and "0 < dy" and "width img = wc * dx" and "height img = hc * dy"
  shows "split_into_tiles img dx dy =
           Inr (map (\<lambda>i. cropped img ((int i mod wc) * dx) ((int i div wc) * dy) dx dy)
                  [0..<nat (wc * hc)])"
proof -
  have wc: "0 \<le> wc"
    using assms(1,3) width_nonneg [of img] by (simp add: zero_le_mult_iff)
  have hc: "0 \<le> hc"
    using assms(2,4) height_nonneg [of img] by (simp add: zero_le_mult_iff)
  let ?C = "\<lambda>x y. cropped img x y dx dy"
  let ?xs = "map (\<lambda>k. int k * dx) [0..<nat wc]"
  let ?ys = "map (\<lambda>k. int k * dy) [0..<nat hc]"
  have ys: "py_range 0 (height img) dy = Inr ?ys"
    using py_range_pos [OF assms(2) hc] assms(4) by simp
  have xs: "py_range 0 (width img) dx = Inr ?xs"
    using py_range_pos [OF assms(1) wc] assms(3) by simp
  have row: "bindE (py_range 0 (width img) dx) (\<lambda>xs. mapE (\<lambda>x. crop img (x, y, x + dx, y + dy)) xs)
      = Inr (map (\<lambda>x. ?C x y) ?xs)" for y
  proof -
    have "mapE (\<lambda>x. crop img (x, y, x + dx, y + dy)) ?xs = Inr (map (\<lambda>x. ?C x y) ?xs)"
      by (rule mapE_Inr) (use assms(1,2) in \<open>simp add: crop_cropped\<close>)
    then show ?thesis by (simp add: xs)
  qed
  have rows: "mapE (\<lambda>y. bindE (py_range 0 (width img) dx)
                  (\<lambda>xs. mapE (\<lambda>x. crop img (x, y, x + dx, y + dy)) xs)) ?ys
      = Inr (map (\<lambda>y. map (\<lambda>x. ?C x y) ?xs) ?ys)"
    by (rule mapE_Inr) (rule row)
  have "concat (map (\<lambda>y. map (\<lambda>x. ?C x y) ?xs) ?ys)
      = concat (map (\<lambda>r. map (\<lambda>c. ?C (int c * dx) (int r * dy)) [0..<nat wc]) [0..<nat hc])"
    by (simp add: comp_def)
  also have "\<dots> = map (\<lambda>i. ?C (int (i mod nat wc) * dx) (int (i div nat wc) * dy))
                       [0..<nat hc * nat wc]"
    by (rule concat_grid)
  also have "\<dots> = map (\<lambda>i. ?C ((int i mod wc) * dx) ((int i div wc) * dy)) [0..<nat (wc * hc)]"
    using wc hc by (simp add: zmod_int zdiv_int nat_mult_distrib mult.commute)
  finally have "concat (map (\<lambda>y. map (\<lambda>x. ?C x y) ?xs) ?ys)
      = map (\<lambda>i. ?C ((int i mod wc) * dx) ((int i div wc) * dy)) [0..<nat (wc * hc)]" .
  then show ?thesis
    by (simp add: split_into_tiles_def ys rows)
qed

lemma split_into_tiles_eq:
  assumes "0 < dx" and "0 < dy" and "width img mod dx = 0" and "height img mod dy = 0"
  shows "split_into_tiles img dx dy = Inr (grid_tiles img dx dy)"
  unfolding grid_tiles_def
  by (rule split_into_tiles_grid) (use assms in auto)

lemma length_grid_tiles:
  "length (grid_tiles img dx dy) = nat ((width img div dx) * (height img div dy))"
  by (simp add: grid_tiles_def)

lemma grid_tiles_nth:
  assumes "i < length (grid_tiles img dx dy)"
  shows "grid_tiles img dx dy ! i =
           cropped img ((int i mod (width img div dx)) * dx) ((int i div (width img div dx)) * dy) dx dy"
  using assms by (simp add: grid_tiles_def)


lemma grid_tiles_4x4:
  assumes "im_size img = (4, 4)"
  shows "grid_tiles img 2 2 =
           [cropped img 0 0 2 2, cropped img 2 0 2 2, cropped img 0 2 2 2, cropped img 2 2 2 2]"
proof -
  have wh: "width img = 4" "height img = 4"
    using assms by (simp_all add: width_def height_def)
  have "[0..<4] = [0, 1, 2, 3]" by code_simp
  then show ?thesis
    by (simp add: grid_tiles_def wh)
qed

text \<open>
  C5.  For a positive tile size that divides both image dimensions, \<open>split_into_tiles\<close>
  returns \<open>(width / dx) * (height / dy)\<close> tiles in row-major order: the tile of
  row \<open>r\<close> and column \<open>c\<close>, at index \<open>r * (width / dx) + c\<close>, is the crop of the
  rectangle from \<open>(c * dx, r * dy)\<close> to \<open>(c * dx + dx, r * dy + dy)\<close>.  Tile 0 is
  the top-left one (\<open>r = c = 0\<close>); the index grows left to right, then top to
  bottom.
\<close>

theorem split_into_tiles_row_major:
  assumes "0 < dx" and "0 < dy" and "width img mod dx = 0" and "height img mod dy = 0"
  shows "\<exists>tiles. split_into_tiles img dx dy = Inr tiles \<and>
           int (length tiles) = (width img div dx) * (height img div dy) \<and>
           (\<forall>r c. 0 \<le> r \<and> r < height img div dy \<and> 0 \<le> c \<and> c < width img div dx \<longrightarrow>
              crop img (c * dx, r * dy, c * dx + dx, r * dy + dy) =
                Inr (tiles ! nat (r * (width img div dx) + c)))"
proof -
  let ?wc = "width img div dx" and ?hc = "height img div dy"
  let ?tiles = "grid_tiles img dx dy"
  have nn: "0 \<le> ?wc" "0 \<le> ?hc"
    using assms(1,2) by (simp_all add: pos_imp_zdiv_nonneg_iff)
  then have len: "int (length ?tiles) = ?wc * ?hc"
    by (simp add: length_grid_tiles)
  have nth: "crop img (c * dx, r * dy, c * dx + dx, r * dy + dy) = Inr (?tiles ! nat (r * ?wc + c))"
    if h: "0 \<le> r \<and> r < ?hc \<and> 0 \<le> c \<and> c < ?wc" for r c
  proof -
    let ?i = "r * ?wc + c"
    have wc: "0 < ?wc" using h by linarith
    have rc: "r = ?i div ?wc \<and> c = ?i mod ?wc"
      using index_iff [OF wc, of c r ?i] h by simp
    have "(r + 1) * ?wc \<le> ?hc * ?wc"
      by (rule mult_right_mono) (use h wc in simp_all)
    then have "r * ?wc + ?wc \<le> ?wc * ?hc"
      by (simp only: distrib_right mult_1 mult.commute [of ?hc ?wc])
    moreover have "0 \<le> r * ?wc" using h wc by simp
    ultimately have i: "0 \<le> ?i" "?i < int (length ?tiles)"
      unfolding len using h by linarith+
    then have "nat ?i < length ?tiles" by linarith
    then have "?tiles ! nat ?i = cropped img ((int (nat ?i) mod ?wc) * dx) ((int (nat ?i) div ?wc) * dy) dx dy"
      by (rule grid_tiles_nth)
    also have "int (nat ?i) = ?i" using i by simp
    finally have "?tiles ! nat ?i = cropped img (c * dx) (r * dy) dx dy"
      using rc by simp
    then show ?thesis
      using assms(1,2) by (simp add: crop_cropped)
  qed
  show ?thesis
    using split_into_tiles_eq [OF assms] len nth by blast
qed

theorem split_into_tiles_row_major_witness:
  "(0::int) < 2 \<and> width sample_image mod 2 = 0 \<and> height sample_image mod 2 = 0 \<and>
   (\<exists>tiles. split_into_tiles sample_image 2 2 = Inr tiles \<and> length tiles = 4 \<and>
      crop sample_image (0, 0, 2, 2) = Inr (tiles ! 0) \<and>
      crop sample_image (2, 0, 4, 2) = Inr (tiles ! 1) \<and>
      crop sample_image (0, 2, 2, 4) = Inr (tiles ! 2) \<and>
      crop sample_image (2, 2, 4, 4) = Inr (tiles ! 3))"
proof -
  from split_into_tiles_row_major [of 2 2 sample_image]
  obtain tiles where t: "split_into_tiles sample_image 2 2 = Inr tiles"
    "int (length tiles) = 4"
    and nth: "\<And>r c. 0 \<le> r \<and> r < 2 \<and> 0 \<le> c \<and> c < 2 \<Longrightarrow>
       crop sample_image (c * 2, r * 2, c * 2 + 2, r * 2 + 2) = Inr (tiles ! nat (r * 2 + c))"
    by auto
  from nth [of 0 0] nth [of 0 1] nth [of 1 0] nth [of 1 1] t
  show ?thesis by (auto simp add: numeral_eq_Suc)
qed

section \<open>The permuted tiles\<close>




section \<open>combine_tiles\<close>

text \<open>
  Pasting a tile of size \<open>(dx, dy)\<close> at the offset of index \<open>i\<close> covers exactly the
  pixels of the cell with row-major index \<open>i\<close>.
\<close>

lemma paste_cell:
  assumes "0 < wc" and "0 < dx" and "0 < dy" and "im_size t = (nat dx, nat dy)"
    and "0 \<le> x" and "0 \<le> y"
  shows "inside t (x - (i mod wc) * dx) (y - (i div wc) * dy) \<longleftrightarrow>
           x < wc * dx \<and> (y div dy) * wc + x div dx = i"
proof -
  have "inside t (x - (i mod wc) * dx) (y - (i div wc) * dy) \<longleftrightarrow>
          ((i mod wc) * dx \<le> x \<and> x < (i mod wc) * dx + dx) \<and>
          ((i div wc) * dy \<le> y \<and> y < (i div wc) * dy + dy)"
    by (auto simp add: inside_tile [OF assms(4)])
  also have "\<dots> \<longleftrightarrow> x div dx = i mod wc \<and> y div dy = i div wc"
    by (simp only: cell_iff [OF assms(2)] cell_iff [OF assms(3)])
  also have "\<dots> \<longleftrightarrow> x < wc * dx \<and> (y div dy) * wc + x div dx = i"
  proof (cases "x div dx < wc")
    case True
    have "0 \<le> x div dx"
      using assms(2,5) by (simp add: pos_imp_zdiv_nonneg_iff)
    from index_iff [OF assms(1) this True, of "y div dy" i] True
    show ?thesis
      by (auto simp add: div_less_cells [OF assms(2)])
  next
    case False
    have "i mod wc < wc" using assms(1) by simp
    with False have "x div dx \<noteq> i mod wc" by linarith
    moreover have "\<not> x < wc * dx"
      using False div_less_cells [OF assms(2), of x wc] by blast
    ultimately show ?thesis by simp
  qed
  finally show ?thesis .
qed

text \<open>
  The loop from index \<open>i\<close> on: afterwards a pixel in the cell of a pasted tile holds
  that tile's pixel, and every other pixel is unchanged.
\<close>

lemma combine_loop_pixels:
  assumes "0 < wc" and "0 < dx" and "0 < dy"
    and "\<forall>t \<in> set tiles. im_size t = (nat dx, nat dy)"
  shows "\<exists>out. combine_loop img i tiles wc dx dy = Inr out \<and>
           im_size out = im_size img \<and> im_mode out = im_mode img \<and>
           (\<forall>x y. im_pixel out x y =
              (if inside img x y \<and> x < wc * dx \<and> i \<le> (y div dy) * wc + x div dx \<and>
                  (y div dy) * wc + x div dx < i + int (length tiles)
               then im_pixel (tiles ! nat ((y div dy) * wc + x div dx - i)) (x mod dx) (y mod dy)
               else im_pixel img x y))"
  using assms(4)
proof (induction tiles arbitrary: img i)
  case Nil
  show ?case by auto
next
  case (Cons t ts)
  let ?img = "paste img t ((i mod wc) * dx, (i div wc) * dy)"
  have sz: "im_size t = (nat dx, nat dy)" and rest: "\<forall>t \<in> set ts. im_size t = (nat dx, nat dy)"
    using Cons.prems by simp_all
  from Cons.IH [OF rest, of ?img "i + 1"]
  obtain out where out: "combine_loop ?img (i + 1) ts wc dx dy = Inr out"
    and osz: "im_size out = im_size ?img" and omd: "im_mode out = im_mode ?img"
    and opx: "\<And>x y. im_pixel out x y =
              (if inside ?img x y \<and> x < wc * dx \<and> i + 1 \<le> (y div dy) * wc + x div dx \<and>
                  (y div dy) * wc + x div dx < i + 1 + int (length ts)
               then im_pixel (ts ! nat ((y div dy) * wc + x div dx - (i + 1))) (x mod dx) (y mod dy)
               else im_pixel ?img x y)"
    by blast
  have run: "combine_loop img i (t # ts) wc dx dy = Inr out"
    using assms(1) out by (simp add: py_mod_def py_floordiv_def)
  have px: "im_pixel out x y =
              (if inside img x y \<and> x < wc * dx \<and> i \<le> (y div dy) * wc + x div dx \<and>
                  (y div dy) * wc + x div dx < i + int (length (t # ts))
               then im_pixel ((t # ts) ! nat ((y div dy) * wc + x div dx - i)) (x mod dx) (y mod dy)
               else im_pixel img x y)" for x y
  proof (cases "inside img x y")
    case False
    then show ?thesis by (simp add: opx paste_pixel)
  next
    case True
    then have nn: "0 \<le> x" "0 \<le> y" by (simp_all add: inside_def)
    let ?k = "(y div dy) * wc + x div dx"
    note cell = paste_cell [OF assms(1-3) sz nn, of i]
    show ?thesis
    proof (cases "x < wc * dx \<and> ?k = i")
      case here: True
      have "x - (i mod wc) * dx = x mod dx" "y - (i div wc) * dy = y mod dy"
      proof -
        from here cell have "inside t (x - (i mod wc) * dx) (y - (i div wc) * dy)" by simp
        then have "(i mod wc) * dx \<le> x \<and> x < (i mod wc) * dx + dx"
          "(i div wc) * dy \<le> y \<and> y < (i div wc) * dy + dy"
          by (auto simp add: inside_tile [OF sz])
        then have "x div dx = i mod wc" "y div dy = i div wc"
          by (simp_all only: cell_iff [OF assms(2)] cell_iff [OF assms(3)])
        then show "x - (i mod wc) * dx = x mod dx" "y - (i div wc) * dy = y mod dy"
          by (metis minus_div_mult_eq_mod)+
      qed
      with here cell True show ?thesis
        by (simp add: opx paste_pixel)
    next
      case other: False
      with cell have np: "\<not> inside t (x - (i mod wc) * dx) (y - (i div wc) * dy)" by simp
      have "nat (?k - i) = Suc (nat (?k - (i + 1)))" if "i + 1 \<le> ?k"
        using that by simp
      with other np True show ?thesis
        by (auto simp add: opx paste_pixel)
    qed
  qed
  show ?case
    using run osz omd px by simp
qed


lemma combine_tiles_pixels:
  fixes tiles :: "('p::zero) image list"
  assumes "0 < dx" and "0 < dy" and "0 \<le> wc" and "0 \<le> hc" and "int (length tiles) = wc * hc"
    and "\<forall>t \<in> set tiles. im_size t = (nat dx, nat dy)"
  shows "\<exists>out. combine_tiles tiles wc hc dx dy m = Inr out \<and>
           im_size out = (nat (dx * wc), nat (dy * hc)) \<and> im_mode out = m \<and>
           (\<forall>i u v. i < length tiles \<and> 0 \<le> u \<and> u < dx \<and> 0 \<le> v \<and> v < dy \<longrightarrow>
              im_pixel out ((int i mod wc) * dx + u) ((int i div wc) * dy + v) = im_pixel (tiles ! i) u v)"
proof -
  let ?blank = "\<lparr>im_size = (nat (dx * wc), nat (dy * hc)), im_mode = m, im_pixel = (\<lambda>x y. 0),
                im_palette = (if has_palette m then Some fresh_palette else None)\<rparr> :: 'p image"
  have nn: "0 \<le> dx * wc" "0 \<le> dy * hc"
    using assms(1-4) by simp_all
  have blank: "image_new m (dx * wc, dy * hc) = Inr ?blank"
    using nn by (simp add: image_new_def)
  have run: "combine_tiles tiles wc hc dx dy m = combine_loop ?blank 0 tiles wc dx dy"
    by (simp add: combine_tiles_def blank)
  have bw: "width ?blank = wc * dx" and bh: "height ?blank = hc * dy"
    using nn by (simp_all add: width_def height_def mult.commute)
  show ?thesis
  proof (cases "tiles = []")
    case True
    then show ?thesis using run by simp
  next
    case False
    then have "0 < int (length tiles)" by simp
    then have "0 < wc * hc" unfolding assms(5) .
    then have wc: "0 < wc"
      using assms(3) by (cases "wc = 0") simp_all
    from combine_loop_pixels [OF wc assms(1,2,6), of ?blank 0]
    obtain out where out: "combine_loop ?blank 0 tiles wc dx dy = Inr out"
      and osz: "im_size out = im_size ?blank" and omd: "im_mode out = im_mode ?blank"
      and opx: "\<And>x y. im_pixel out x y =
              (if inside ?blank x y \<and> x < wc * dx \<and> 0 \<le> (y div dy) * wc + x div dx \<and>
                  (y div dy) * wc + x div dx < 0 + int (length tiles)
               then im_pixel (tiles ! nat ((y div dy) * wc + x div dx - 0)) (x mod dx) (y mod dy)
               else im_pixel ?blank x y)"
      by blast
    have px: "im_pixel out ((int i mod wc) * dx + u) ((int i div wc) * dy + v) = im_pixel (tiles ! i) u v"
      if h: "i < length tiles \<and> 0 \<le> u \<and> u < dx \<and> 0 \<le> v \<and> v < dy" for i u v
    proof -
      let ?c = "int i mod wc" and ?r = "int i div wc"
      let ?x = "?c * dx + u" and ?y = "?r * dy + v"
      have c: "0 \<le> ?c" "?c < wc" using wc by simp_all
      have r0: "0 \<le> ?r" using wc by (simp add: pos_imp_zdiv_nonneg_iff)
      have "int i < hc * wc" using h assms(5) by (simp add: mult.commute)
      then have r1: "?r < hc" by (simp only: div_less_cells [OF wc])
      have xd: "?x div dx = ?c" and yd: "?y div dy = ?r"
        using cell_iff [OF assms(1), of ?c ?x] cell_iff [OF assms(2), of ?r ?y] h by simp_all
      have xm: "?x mod dx = u" and ym: "?y mod dy = v"
        using h by simp_all
      have "?x < ?c * dx + dx" using h by simp
      also have "\<dots> = (?c + 1) * dx" by (simp add: distrib_right)
      also have "\<dots> \<le> wc * dx"
        by (rule mult_right_mono) (use c assms(1) in simp_all)
      finally have xw: "?x < wc * dx" .
      have "?y < ?r * dy + dy" using h by simp
      also have "\<dots> = (?r + 1) * dy" by (simp add: distrib_right)
      also have "\<dots> \<le> hc * dy"
        by (rule mult_right_mono) (use r1 assms(2) in simp_all)
      finally have yh: "?y < hc * dy" .
      have "0 \<le> ?c * dx" "0 \<le> ?r * dy"
        using c r0 assms(1,2) by simp_all
      then have ins: "inside ?blank ?x ?y"
        unfolding inside_def bw bh using xw yh h by simp
      have k: "?r * wc + ?c = int i" by simp
      show ?thesis
        unfolding opx [of ?x ?y] xd yd xm ym k using ins xw h by simp
    qed
    show ?thesis
      using run out osz omd px by simp
  qed
qed

text \<open>
  C7.  For \<open>width_count * height_count\<close> tiles of size \<open>(dx, dy)\<close>, \<open>combine_tiles\<close>
  returns an image of size \<open>(dx * width_count, dy * height_count)\<close> in the given
  mode, in which tile \<open>i\<close> lies at the offset
  \<open>((i mod width_count) * dx, (i div width_count) * dy)\<close>: the pixel \<open>(u, v)\<close> of
  the tile is the pixel of the image at the offset plus \<open>(u, v)\<close>.  In particular,
  for a 4 by 4 image, 2 by 2 tiles and the ordering \<open>[3, 2, 1, 0]\<close>, tile 3 of the
  split fills the top-left cell of the result, tile 2 the top-right, tile 1 the
  bottom-left and tile 0 the bottom-right.
\<close>

theorem combine_tiles_grid:
  fixes tiles :: "('p::zero) image list" and img :: "'p image"
  shows "(0 < dx \<and> 0 < dy \<and> 0 \<le> wc \<and> 0 \<le> hc \<and> int (length tiles) = wc * hc \<and>
          (\<forall>t \<in> set tiles. im_size t = (nat dx, nat dy)) \<longrightarrow>
            (\<exists>out. combine_tiles tiles wc hc dx dy m = Inr out \<and>
               im_size out = (nat (dx * wc), nat (dy * hc)) \<and> im_mode out = m \<and>
               (\<forall>i u v. i < length tiles \<and> 0 \<le> u \<and> u < dx \<and> 0 \<le> v \<and> v < dy \<longrightarrow>
                  im_pixel out ((int i mod wc) * dx + u) ((int i div wc) * dy + v) =
                    im_pixel (tiles ! i) u v))) \<and>
         (im_size img = (4, 4) \<longrightarrow>
            (\<exists>t0 t1 t2 t3 out.
               split_into_tiles img 2 2 = Inr [t0, t1, t2, t3] \<and>
               sorted_tiles [t0, t1, t2, t3] [3, 2, 1, 0] = Inr [t3, t2, t1, t0] \<and>
               combine_tiles [t3, t2, t1, t0] 2 2 2 2 (im_mode img) = Inr out \<and>
               new_img img (2, 2) [3, 2, 1, 0] = Inr out \<and>
               (\<forall>u v. 0 \<le> u \<and> u < 2 \<and> 0 \<le> v \<and> v < 2 \<longrightarrow>
                  im_pixel out u v = im_pixel t3 u v \<and>
                  im_pixel out (2 + u) v = im_pixel t2 u v \<and>
                  im_pixel out u (2 + v) = im_pixel t1 u v \<and>
                  im_pixel out (2 + u) (2 + v) = im_pixel t0 u v)))"
proof (intro conjI impI)
  assume "0 < dx \<and> 0 < dy \<and> 0 \<le> wc \<and> 0 \<le> hc \<and> int (length tiles) = wc * hc \<and>
          (\<forall>t \<in> set tiles. im_size t = (nat dx, nat dy))"
  then show "\<exists>out. combine_tiles tiles wc hc dx dy m = Inr out \<and>
               im_size out = (nat (dx * wc), nat (dy * hc)) \<and> im_mode out = m \<and>
               (\<forall>i u v. i < length tiles \<and> 0 \<le> u \<and> u < dx \<and> 0 \<le> v \<and> v < dy \<longrightarrow>
                  im_pixel out ((int i mod wc) * dx + u) ((int i div wc) * dy + v) =
                    im_pixel (tiles ! i) u v)"
    by (intro combine_tiles_pixels) simp_all
next
  assume sz: "im_size img = (4, 4)"
  let ?t0 = "cropped img 0 0 2 2" and ?t1 = "cropped img 2 0 2 2"
  let ?t2 = "cropped img 0 2 2 2" and ?t3 = "cropped img 2 2 2 2"
  let ?sorted = "[?t3, ?t2, ?t1, ?t0]"
  have wh: "width img = 4" "height img = 4"
    using sz by (simp_all add: width_def height_def)
  have split: "split_into_tiles img 2 2 = Inr [?t0, ?t1, ?t2, ?t3]"
    using split_into_tiles_eq [of 2 2 img] grid_tiles_4x4 [OF sz] by (simp add: wh)
  have sorted: "sorted_tiles [?t0, ?t1, ?t2, ?t3] [3, 2, 1, 0] = Inr ?sorted"
    by (simp add: sorted_tiles_def py_getitem_def)
  from combine_tiles_pixels [of 2 2 2 2 ?sorted "im_mode img"]
  obtain out where out: "combine_tiles ?sorted 2 2 2 2 (im_mode img) = Inr out"
    and px: "\<And>i u v. i < 4 \<and> 0 \<le> u \<and> u < 2 \<and> 0 \<le> v \<and> v < 2 \<Longrightarrow>
                  im_pixel out ((int i mod 2) * 2 + u) ((int i div 2) * 2 + v) =
                    im_pixel (?sorted ! i) u v"
    by auto
  have run: "new_img img (2, 2) [3, 2, 1, 0] = Inr out"
    by (simp add: new_img_def split sorted py_floordiv_def wh out)
  have "im_pixel out u v = im_pixel ?t3 u v \<and>
        im_pixel out (2 + u) v = im_pixel ?t2 u v \<and>
        im_pixel out u (2 + v) = im_pixel ?t1 u v \<and>
        im_pixel out (2 + u) (2 + v) = im_pixel ?t0 u v"
    if h: "0 \<le> u \<and> u < 2 \<and> 0 \<le> v \<and> v < 2" for u v
    using px [of 0 u v] px [of 1 u v] px [of 2 u v] px [of 3 u v] h
    by (simp add: numeral_eq_Suc)
  then show "\<exists>t0 t1 t2 t3 out.
               split_into_tiles img 2 2 = Inr [t0, t1, t2, t3] \<and>
               sorted_tiles [t0, t1, t2, t3] [3, 2, 1, 0] = Inr [t3, t2, t1, t0] \<and>
               combine_tiles [t3, t2, t1, t0] 2 2 2 2 (im_mode img) = Inr out \<and>
               new_img img (2, 2) [3, 2, 1, 0] = Inr out \<and>
               (\<forall>u v. 0 \<le> u \<and> u < 2 \<and> 0 \<le> v \<and> v < 2 \<longrightarrow>
                  im_pixel out u v = im_pixel t3 u v \<and>
                  im_pixel out (2 + u) v = im_pixel t2 u v \<and>
                  im_pixel out u (2 + v) = im_pixel t1 u v \<and>
                  im_pixel out (2 + u) (2 + v) = im_pixel t0 u v)"
    using split sorted out run by blast
qed

theorem combine_tiles_grid_witness:
  "(\<exists>out. combine_tiles [cropped sample_image 2 2 2 2, cropped sample_image 0 2 2 2,
                          cropped sample_image 2 0 2 2, cropped sample_image 0 0 2 2]
             2 2 2 2 ''L'' = Inr out \<and>
      im_size out = (4, 4) \<and> im_mode out = ''L'' \<and>
      im_pixel out 0 0 = 10 \<and> im_pixel out 3 0 = 9 \<and>
      im_pixel out 0 3 = 6 \<and> im_pixel out 3 3 = 5) \<and>
   (\<exists>out. new_img sample_image (2, 2) [3, 2, 1, 0] = Inr out \<and>
      im_pixel out 0 0 = 10 \<and> im_pixel out 2 0 = 8 \<and>
      im_pixel out 0 2 = 2 \<and> im_pixel out 2 2 = 0)"
proof -
  let ?t0 = "cropped sample_image 0 0 2 2" and ?t1 = "cropped sample_image 2 0 2 2"
  let ?t2 = "cropped sample_image 0 2 2 2" and ?t3 = "cropped sample_image 2 2 2 2"
  let ?sorted = "[?t3, ?t2, ?t1, ?t0]"
  note inst = combine_tiles_grid [of 2 2 2 2 ?sorted "''L''" sample_image]
  have px: "im_pixel ?t0 u v = u + 4 * v" "im_pixel ?t1 u v = 2 + u + 4 * v"
    "im_pixel ?t2 u v = u + 4 * (2 + v)" "im_pixel ?t3 u v = 2 + u + 4 * (2 + v)"
    if "0 \<le> u \<and> u < 2 \<and> 0 \<le> v \<and> v < 2" for u v
    using that by (simp_all add: cropped_def inside_def)
  from inst obtain out where out: "combine_tiles ?sorted 2 2 2 2 ''L'' = Inr out"
    and sm: "im_size out = (4, 4)" "im_mode out = ''L''"
    and opx: "\<And>i u v. i < 4 \<and> 0 \<le> u \<and> u < 2 \<and> 0 \<le> v \<and> v < 2 \<Longrightarrow>
                  im_pixel out ((int i mod 2) * 2 + u) ((int i div 2) * 2 + v) =
                    im_pixel (?sorted ! i) u v"
    by auto
  have first: "im_pixel out 0 0 = 10 \<and> im_pixel out 3 0 = 9 \<and>
      im_pixel out 0 3 = 6 \<and> im_pixel out 3 3 = 5"
    using opx [of 0 0 0] opx [of 1 1 0] opx [of 2 0 1] opx [of 3 1 1]
    by (simp add: px numeral_eq_Suc)
  from inst obtain t0 t1 t2 t3 out2 where
    split: "split_into_tiles sample_image 2 2 = Inr [t0, t1, t2, t3]"
    and run: "new_img sample_image (2, 2) [3, 2, 1, 0] = Inr out2"
    and opx2: "\<And>u v. 0 \<le> u \<and> u < 2 \<and> 0 \<le> v \<and> v < 2 \<Longrightarrow>
                  im_pixel out2 u v = im_pixel t3 u v \<and>
                  im_pixel out2 (2 + u) v = im_pixel t2 u v \<and>
                  im_pixel out2 u (2 + v) = im_pixel t1 u v \<and>
                  im_pixel out2 (2 + u) (2 + v) = im_pixel t0 u v"
    by auto
  have "split_into_tiles sample_image 2 2 = Inr [?t0, ?t1, ?t2, ?t3]"
    using split_into_tiles_eq [of 2 2 sample_image] grid_tiles_4x4 [of sample_image] by simp
  with split have ts: "t0 = ?t0" "t1 = ?t1" "t2 = ?t2" "t3 = ?t3" by simp_all
  have second: "im_pixel out2 0 0 = 10 \<and> im_pixel out2 2 0 = 8 \<and>
      im_pixel out2 0 2 = 2 \<and> im_pixel out2 2 2 = 0"
    using opx2 [of 0 0] by (simp add: ts px)
  show ?thesis
    using out sm first run second by blast
qed

section \<open>rearrange_tiles\<close>





text \<open>
  With a negative tile dimension the split has no tiles, so only the empty ordering
  gets past line 51.
\<close>

lemma split_into_tiles_negative_step:
  "dy < 0 \<Longrightarrow> split_into_tiles img dx dy = Inr []"
proof -
  assume a: "dy < 0"
  have "(0 - height img - dy - 1) div (- dy) < 1"
    using a div_less_cells [of "- dy" "0 - height img - dy - 1" 1] height_nonneg [of img] by simp
  then have "nat ((0 - height img - dy - 1) div (- dy)) = 0"
    by simp
  then have "py_range 0 (height img) dy = Inr []"
    using a unfolding py_range_def by simp
  then show ?thesis
    by (simp add: split_into_tiles_def)
qed















text \<open>
  No step after the validation raises a \<open>ValueError\<close> with the message of
  \<open>rearrange_tiles\<close>: the library's own messages differ.
\<close>

lemma combine_loop_neq: "combine_loop img i tiles wc dx dy \<noteq> Inl InvalidArrangement"
proof (induction tiles arbitrary: img i)
  case Nil
  show ?case by simp
next
  case (Cons t ts)
  show ?case
    unfolding combine_loop.simps
    by (intro bindE_neq Cons.IH) (simp_all add: py_mod_def py_floordiv_def)
qed

lemma split_into_tiles_neq: "split_into_tiles img dx dy \<noteq> Inl InvalidArrangement"
  unfolding split_into_tiles_def
  by (intro bindE_neq mapE_neq) (simp_all add: py_range_def crop_def)

lemma sorted_tiles_neq: "sorted_tiles tiles ords \<noteq> Inl InvalidArrangement"
  unfolding sorted_tiles_def
  by (intro mapE_neq) (simp add: py_getitem_def)

lemma combine_tiles_neq: "combine_tiles tiles wc hc dx dy m \<noteq> Inl InvalidArrangement"
  unfolding combine_tiles_def
  by (intro bindE_neq combine_loop_neq) (simp add: image_new_def)

lemma new_img_neq: "new_img img tile_size ords \<noteq> Inl InvalidArrangement"
proof -
  obtain dx dy where t: "tile_size = (dx, dy)" by (cases tile_size)
  show ?thesis
    unfolding new_img_def t prod.case
    by (intro bindE_neq split_into_tiles_neq sorted_tiles_neq combine_tiles_neq)
      (simp_all add: py_floordiv_def)
qed

lemma valid_input_neq: "valid_input image_size tile_size ords \<noteq> Inl InvalidArrangement"
  by (cases image_size, cases tile_size) (simp add: valid_input_cases)

lemma image_save_neq: "fst (image_save fs img path) \<noteq> Inl InvalidArrangement"
  by (simp add: image_save_def split: sum.splits save_failure.splits)

text \<open>
  C2.  Once the image is open, \<open>rearrange_tiles\<close> raises \<open>ValueError\<close> with the
  message "The tile size or ordering are not valid for the given image" exactly
  when \<open>valid_input\<close> returns \<open>False\<close> for the size of the image, the tile size and
  the ordering; and then the file system is left as it was: nothing is created or
  overwritten under \<open>out_path\<close>.
\<close>

theorem rearrange_tiles_invalid_arrangement:
  assumes "files fs image_path = Some img"
  shows "(fst (rearrange_tiles fs image_path tile_size ords out_path) =
            Inl (ValueError ''The tile size or ordering are not valid for the given image'') \<longleftrightarrow>
          valid_input (width img, height img) tile_size ords = Inr False) \<and>
         (valid_input (width img, height img) tile_size ords = Inr False \<longrightarrow>
          snd (rearrange_tiles fs image_path tile_size ords out_path) = fs)"
proof (cases "valid_input (width img, height img) tile_size ords")
  case (Inl e)
  then have "e \<noteq> InvalidArrangement"
    using valid_input_neq [of "(width img, height img)" tile_size ords] by auto
  with Inl assms show ?thesis
    by (simp add: rearrange_tiles_def image_open_def)
next
  case (Inr ok)
  show ?thesis
  proof (cases ok)
    case False
    with Inr assms show ?thesis
      by (simp add: rearrange_tiles_def image_open_def)
  next
    case True
    have "fst (rearrange_tiles fs image_path tile_size ords out_path) \<noteq> Inl InvalidArrangement"
    proof (cases "new_img img tile_size ords")
      case (Inl e)
      then have "e \<noteq> InvalidArrangement"
        using new_img_neq [of img tile_size ords] by auto
      with Inl Inr True assms show ?thesis
        by (simp add: rearrange_tiles_def image_open_def)
    next
      case out: (Inr out)
      with Inr True assms show ?thesis
        by (simp add: rearrange_tiles_def image_open_def image_save_neq)
    qed
    with Inr True show ?thesis by simp
  qed
qed

theorem rearrange_tiles_invalid_arrangement_witness:
  "files odd_fs ''in.png'' = Some odd_image \<and>
   valid_input (5, 4) (2, 2) [0, 1, 2, 3] = Inr False \<and>
   rearrange_tiles odd_fs ''in.png'' (2, 2) [0, 1, 2, 3] ''out.png'' =
     (Inl (ValueError ''The tile size or ordering are not valid for the given image''), odd_fs)"
proof -
  have v: "valid_input (5, 4) (2, 2) [0, 1, 2, 3] = Inr False"
    by (simp add: valid_input_cases)
  from rearrange_tiles_invalid_arrangement [of odd_fs "''in.png''" odd_image "(2, 2)" "[0, 1, 2, 3]" "''out.png''"] v
  have "fst (rearrange_tiles odd_fs ''in.png'' (2, 2) [0, 1, 2, 3] ''out.png'') =
          Inl (ValueError ''The tile size or ordering are not valid for the given image'')"
    and "snd (rearrange_tiles odd_fs ''in.png'' (2, 2) [0, 1, 2, 3] ''out.png'') = odd_fs"
    by simp_all
  then have "rearrange_tiles odd_fs ''in.png'' (2, 2) [0, 1, 2, 3] ''out.png'' =
     (Inl (ValueError ''The tile size or ordering are not valid for the given image''), odd_fs)"
    by (simp add: prod_eq_iff)
  with v show ?thesis by simp
qed

text \<open>
  A tile size with negative components passes the validation (see C10), but then
  indexing the empty list of tiles raises.
\<close>

lemma rearrange_tiles_negative_tile_size:
  "rearrange_tiles sample_fs ''in.png'' (- 2, - 2) [0, 1, 2, 3] ''out.png'' =
     (Inl IndexError, sample_fs)"
proof -
  have s: "set [0, 1, 2, 3 :: int] = {0..<4}" by auto
  have v: "valid_input (4, 4) (- 2, - 2) [0, 1, 2, 3] = Inr True"
    using s by (simp add: valid_input_cases)
  have "new_img sample_image (- 2, - 2) [0, 1, 2, 3] = Inl IndexError"
    by (simp add: new_img_def split_into_tiles_negative_step sorted_tiles_def py_getitem_def)
  with v show ?thesis
    by (simp add: rearrange_tiles_def image_open_def)
qed

end
